theory Spec2Isabelle
  imports Complex_Main "HOL-Library.Log_Nat" "HOL-Library.Word"
begin

section \<open>JavaScript Numbers\<close>

text \<open>
  Every number of \<^verbatim>\<open>answer.js\<close> and \<^verbatim>\<open>solvepolynomial.js\<close> is a JavaScript
  Number: an IEEE 754 binary64 value. A finite Number is modelled by the rational it
  denotes, the three other values by constructors of their own. Each arithmetic operator
  computes the exact result and rounds it once to the nearest binary64 value, ties to the
  even significand (\<open>fl\<close>), as IEEE 754 prescribes for \<^verbatim>\<open>+ - * /\<close>.

  The sign of zero is not modelled (\<^verbatim>\<open>-0\<close> and \<^verbatim>\<open>+0\<close> are one value, as they are
  for \<^verbatim>\<open>===\<close>). It can be observed only by dividing by a zero; the divisors of the code
  are \<^verbatim>\<open>xi - xj\<close> and a pivot that earlier subtractions produced, and a subtraction
  whose exact result is zero yields \<^verbatim>\<open>+0\<close>, so a zero divisor is taken to be \<^verbatim>\<open>+0\<close>.
\<close>

datatype jsnum = Fin rat | PInf | NInf | NaN

definition pow2 :: "int \<Rightarrow> rat" where
  "pow2 e = (if 0 \<le> e then 2 ^ nat e else 1 / 2 ^ nat (- e))"

text \<open>\<open>ilog2 q\<close> is the exponent \<open>e\<close> with \<open>2^e \<le> q < 2^(e+1)\<close>, for \<open>q > 0\<close>.\<close>

definition ilog2 :: "rat \<Rightarrow> int" where
  "ilog2 q = (if 1 \<le> q then bitlen \<lfloor>q\<rfloor> - 1 else - bitlen (\<lceil>1 / q\<rceil> - 1))"

definition round_half_even :: "rat \<Rightarrow> int" where
  "round_half_even q =
     (let f = \<lfloor>q\<rfloor>; r = q - of_int f in
      if r < 1 / 2 then f
      else if 1 / 2 < r then f + 1
      else if even f then f else f + 1)"

text \<open>
  Rounding to binary64: 53 significant bits, exponents from \<open>-1022\<close> (below it the
  subnormal numbers share the unit \<open>2^-1074\<close>) to \<open>1023\<close>; a result that rounds to
  \<open>2^1024\<close> or beyond is an infinity.
\<close>

definition fl :: "rat \<Rightarrow> jsnum" where
  "fl q =
     (if q = 0 then Fin 0
      else
        let e = max (ilog2 \<bar>q\<bar>) (- 1022);
            u = pow2 (e - 52);
            r = of_int (round_half_even (q / u)) * u
        in if 2 ^ 1024 \<le> \<bar>r\<bar> then (if 0 < q then PInf else NInf) else Fin r)"

fun js_neg :: "jsnum \<Rightarrow> jsnum" where
  "js_neg (Fin a) = Fin (- a)"
| "js_neg PInf = NInf"
| "js_neg NInf = PInf"
| "js_neg NaN = NaN"

fun js_add :: "jsnum \<Rightarrow> jsnum \<Rightarrow> jsnum" where
  "js_add (Fin a) (Fin b) = fl (a + b)"
| "js_add NaN y = NaN"
| "js_add x NaN = NaN"
| "js_add PInf NInf = NaN"
| "js_add NInf PInf = NaN"
| "js_add PInf y = PInf"
| "js_add NInf y = NInf"
| "js_add (Fin a) y = y"

definition js_sub :: "jsnum \<Rightarrow> jsnum \<Rightarrow> jsnum" where
  "js_sub x y = js_add x (js_neg y)"

fun js_mul :: "jsnum \<Rightarrow> jsnum \<Rightarrow> jsnum" where
  "js_mul (Fin a) (Fin b) = fl (a * b)"
| "js_mul NaN y = NaN"
| "js_mul x NaN = NaN"
| "js_mul (Fin a) y = (if a = 0 then NaN else if 0 < a then y else js_neg y)"
| "js_mul x (Fin b) = (if b = 0 then NaN else if 0 < b then x else js_neg x)"
| "js_mul PInf y = y"
| "js_mul NInf y = js_neg y"

fun js_div :: "jsnum \<Rightarrow> jsnum \<Rightarrow> jsnum" where
  "js_div (Fin a) (Fin b) =
     (if b = 0 then (if a = 0 then NaN else if 0 < a then PInf else NInf)
      else fl (a / b))"
| "js_div NaN y = NaN"
| "js_div x NaN = NaN"
| "js_div (Fin a) y = Fin 0"
| "js_div x (Fin b) = (if 0 \<le> b then x else js_neg x)"
| "js_div x y = NaN"

text \<open>The comparisons \<^verbatim>\<open>< > >=\<close>: false as soon as an operand is \<^verbatim>\<open>NaN\<close>.\<close>

fun js_lt :: "jsnum \<Rightarrow> jsnum \<Rightarrow> bool" where
  "js_lt (Fin a) (Fin b) = (a < b)"
| "js_lt NaN y = False"
| "js_lt x NaN = False"
| "js_lt x NInf = False"
| "js_lt PInf y = False"
| "js_lt x y = True"

definition js_gt :: "jsnum \<Rightarrow> jsnum \<Rightarrow> bool" where
  "js_gt x y = js_lt y x"

definition js_ge :: "jsnum \<Rightarrow> jsnum \<Rightarrow> bool" where
  "js_ge x y = (x \<noteq> NaN \<and> y \<noteq> NaN \<and> \<not> js_lt x y)"

text \<open>
  \<^verbatim>\<open>Math.round\<close> returns the integer nearest to its argument, the larger one on a tie;
  \<^verbatim>\<open>Math.abs\<close> is exact. Neither rounds to binary64: the results are representable.
\<close>

fun Math_round :: "jsnum \<Rightarrow> jsnum" where
  "Math_round (Fin a) = Fin (of_int \<lfloor>a + 1 / 2\<rfloor>)"
| "Math_round x = x"

fun Math_abs :: "jsnum \<Rightarrow> jsnum" where
  "Math_abs (Fin a) = Fin \<bar>a\<bar>"
| "Math_abs NInf = PInf"
| "Math_abs x = x"

definition is_finite :: "jsnum \<Rightarrow> bool" where
  "is_finite x = (case x of Fin a \<Rightarrow> True | _ \<Rightarrow> False)"

section \<open>Strings\<close>

text \<open>
  A JavaScript string is a sequence of 16-bit code units. \<open>str\<close> gives the code units of
  a literal written in Latin-1.
\<close>

type_synonym jsstring = "16 word list"

definition str :: "string \<Rightarrow> jsstring" where
  "str s = map (\<lambda>c. of_nat (of_char c)) s"

text \<open>
  \<^verbatim>\<open>toLowerCase\<close> on a string of one code unit, by the lower-case mapping of the Unicode
  Character Database (version 14.0). The table lists the code units that the mapping
  changes, as \<open>(lo, hi, stride, d)\<close>: every \<open>stride\<close>-th code unit from \<open>lo\<close> to
  \<open>hi\<close> is mapped to the one \<open>d\<close> places further. \<^verbatim>\<open>U+0130\<close> alone becomes two
  code units; every code unit outside the table stays as it is.
\<close>

definition lower_table :: "(nat \<times> nat \<times> nat \<times> int) list" where
  "lower_table =
    [(65, 90, 1, 32), (192, 214, 1, 32), (216, 222, 1, 32), (256, 302, 2, 1),
     (306, 310, 2, 1), (313, 327, 2, 1), (330, 374, 2, 1), (376, 376, 1, - 121),
     (377, 381, 2, 1), (385, 385, 1, 210), (386, 388, 2, 1), (390, 390, 1, 206),
     (391, 391, 1, 1), (393, 394, 1, 205), (395, 395, 1, 1), (398, 398, 1, 79),
     (399, 399, 1, 202), (400, 400, 1, 203), (401, 401, 1, 1), (403, 403, 1, 205),
     (404, 404, 1, 207), (406, 406, 1, 211), (407, 407, 1, 209), (408, 408, 1, 1),
     (412, 412, 1, 211), (413, 413, 1, 213), (415, 415, 1, 214), (416, 420, 2, 1),
     (422, 422, 1, 218), (423, 423, 1, 1), (425, 425, 1, 218), (428, 428, 1, 1),
     (430, 430, 1, 218), (431, 431, 1, 1), (433, 434, 1, 217), (435, 437, 2, 1),
     (439, 439, 1, 219), (440, 440, 1, 1), (444, 444, 1, 1), (452, 452, 1, 2),
     (453, 453, 1, 1), (455, 455, 1, 2), (456, 456, 1, 1), (458, 458, 1, 2),
     (459, 475, 2, 1), (478, 494, 2, 1), (497, 497, 1, 2), (498, 500, 2, 1),
     (502, 502, 1, - 97), (503, 503, 1, - 56), (504, 542, 2, 1), (544, 544, 1, - 130),
     (546, 562, 2, 1), (570, 570, 1, 10795), (571, 571, 1, 1), (573, 573, 1, - 163),
     (574, 574, 1, 10792), (577, 577, 1, 1), (579, 579, 1, - 195), (580, 580, 1, 69),
     (581, 581, 1, 71), (582, 590, 2, 1), (880, 882, 2, 1), (886, 886, 1, 1),
     (895, 895, 1, 116), (902, 902, 1, 38), (904, 906, 1, 37), (908, 908, 1, 64),
     (910, 911, 1, 63), (913, 929, 1, 32), (931, 939, 1, 32), (975, 975, 1, 8),
     (984, 1006, 2, 1), (1012, 1012, 1, - 60), (1015, 1015, 1, 1), (1017, 1017, 1, - 7),
     (1018, 1018, 1, 1), (1021, 1023, 1, - 130), (1024, 1039, 1, 80), (1040, 1071, 1, 32),
     (1120, 1152, 2, 1), (1162, 1214, 2, 1), (1216, 1216, 1, 15), (1217, 1229, 2, 1),
     (1232, 1326, 2, 1), (1329, 1366, 1, 48), (4256, 4293, 1, 7264), (4295, 4295, 1, 7264),
     (4301, 4301, 1, 7264), (5024, 5103, 1, 38864), (5104, 5109, 1, 8), (7312, 7354, 1, - 3008),
     (7357, 7359, 1, - 3008), (7680, 7828, 2, 1), (7838, 7838, 1, - 7615), (7840, 7934, 2, 1),
     (7944, 7951, 1, - 8), (7960, 7965, 1, - 8), (7976, 7983, 1, - 8), (7992, 7999, 1, - 8),
     (8008, 8013, 1, - 8), (8025, 8031, 2, - 8), (8040, 8047, 1, - 8), (8072, 8079, 1, - 8),
     (8088, 8095, 1, - 8), (8104, 8111, 1, - 8), (8120, 8121, 1, - 8), (8122, 8123, 1, - 74),
     (8124, 8124, 1, - 9), (8136, 8139, 1, - 86), (8140, 8140, 1, - 9), (8152, 8153, 1, - 8),
     (8154, 8155, 1, - 100), (8168, 8169, 1, - 8), (8170, 8171, 1, - 112), (8172, 8172, 1, - 7),
     (8184, 8185, 1, - 128), (8186, 8187, 1, - 126), (8188, 8188, 1, - 9), (8486, 8486, 1, - 7517),
     (8490, 8490, 1, - 8383), (8491, 8491, 1, - 8262), (8498, 8498, 1, 28), (8544, 8559, 1, 16),
     (8579, 8579, 1, 1), (9398, 9423, 1, 26), (11264, 11311, 1, 48), (11360, 11360, 1, 1),
     (11362, 11362, 1, - 10743), (11363, 11363, 1, - 3814), (11364, 11364, 1, - 10727), (11367, 11371, 2, 1),
     (11373, 11373, 1, - 10780), (11374, 11374, 1, - 10749), (11375, 11375, 1, - 10783), (11376, 11376, 1, - 10782),
     (11378, 11378, 1, 1), (11381, 11381, 1, 1), (11390, 11391, 1, - 10815), (11392, 11490, 2, 1),
     (11499, 11501, 2, 1), (11506, 11506, 1, 1), (42560, 42604, 2, 1), (42624, 42650, 2, 1),
     (42786, 42798, 2, 1), (42802, 42862, 2, 1), (42873, 42875, 2, 1), (42877, 42877, 1, - 35332),
     (42878, 42886, 2, 1), (42891, 42891, 1, 1), (42893, 42893, 1, - 42280), (42896, 42898, 2, 1),
     (42902, 42920, 2, 1), (42922, 42922, 1, - 42308), (42923, 42923, 1, - 42319), (42924, 42924, 1, - 42315),
     (42925, 42925, 1, - 42305), (42926, 42926, 1, - 42308), (42928, 42928, 1, - 42258), (42929, 42929, 1, - 42282),
     (42930, 42930, 1, - 42261), (42931, 42931, 1, 928), (42932, 42946, 2, 1), (42948, 42948, 1, - 48),
     (42949, 42949, 1, - 42307), (42950, 42950, 1, - 35384), (42951, 42953, 2, 1), (42960, 42960, 1, 1),
     (42966, 42968, 2, 1), (42997, 42997, 1, 1), (65313, 65338, 1, 32)]"

definition in_range :: "nat \<Rightarrow> nat \<times> nat \<times> nat \<times> int \<Rightarrow> bool" where
  "in_range u r = (case r of (lo, hi, stride, d) \<Rightarrow> lo \<le> u \<and> u \<le> hi \<and> (u - lo) mod stride = 0)"

definition toLowerCase :: "16 word \<Rightarrow> jsstring" where
  "toLowerCase c =
     (let u = unat c in
      if u = 304 then [105, 775]
      else case find (in_range u) lower_table of
             None \<Rightarrow> [c]
           | Some (lo, hi, stride, d) \<Rightarrow> [word_of_int (int u + d)])"

text \<open>
  \<^verbatim>\<open>s.indexOf(t)\<close>: the first position at which the string \<open>t\<close> occurs in \<open>s\<close>, or
  \<open>-1\<close>.
\<close>

fun indexOf_from :: "int \<Rightarrow> jsstring \<Rightarrow> jsstring \<Rightarrow> int" where
  "indexOf_from i [] t = (if t = [] then i else - 1)"
| "indexOf_from i (d # ds) t =
     (if take (length t) (d # ds) = t then i else indexOf_from (i + 1) ds t)"

definition indexOf :: "jsstring \<Rightarrow> jsstring \<Rightarrow> int" where
  "indexOf s t = indexOf_from 0 s t"

section \<open>The base converter of answer.js\<close>

datatype error = InvalidDigit "16 word" jsnum | InsufficientPoints int nat

definition digits :: jsstring where
  "digits = str ''0123456789abcdefghijklmnopqrstuvwxyz''"

text \<open>
  The loop of \<^verbatim>\<open>convertToDecimal\<close>, from the code units still to read and the value of
  \<^verbatim>\<open>result\<close>; the \<^verbatim>\<open>throw\<close> is the left injection.
\<close>

fun convert_loop :: "jsnum \<Rightarrow> jsstring \<Rightarrow> jsnum \<Rightarrow> error + jsnum" where
  "convert_loop base [] result = Inr result"
| "convert_loop base (c # cs) result =
     (let digit = indexOf digits (toLowerCase c) in
      if digit = - 1 \<or> js_ge (Fin (of_int digit)) base then Inl (InvalidDigit c base)
      else convert_loop base cs (js_add (js_mul result base) (Fin (of_int digit))))"

definition convertToDecimal :: "jsstring \<Rightarrow> jsnum \<Rightarrow> error + jsnum" where
  "convertToDecimal val base = convert_loop base val (Fin 0)"

section \<open>The Lagrange solver of answer.js\<close>

text \<open>
  A point is the array \<^verbatim>\<open>[x, y]\<close> of two Numbers. \<^verbatim>\<open>points.slice(0, k)\<close> keeps the
  first \<open>k\<close> elements, and for a negative \<open>k\<close> all but the last \<open>-k\<close>.
\<close>

type_synonym point = "jsnum \<times> jsnum"

definition slice0 :: "'a list \<Rightarrow> int \<Rightarrow> 'a list" where
  "slice0 xs k = (if k < 0 then take (length xs - nat (- k)) xs else take (nat k) xs)"

text \<open>
  The inner loop over \<open>j\<close>: \<^verbatim>\<open>basisValue *= (0 - xj) / (xi - xj)\<close> for every
  \<open>j \<noteq> i\<close>, from \<^verbatim>\<open>basisValue = 1\<close>.
\<close>

definition basis_step :: "point list \<Rightarrow> nat \<Rightarrow> nat \<Rightarrow> jsnum \<Rightarrow> jsnum" where
  "basis_step sel i j basisValue =
     (if i \<noteq> j
      then js_mul basisValue
             (js_div (js_sub (Fin 0) (fst (sel ! j))) (js_sub (fst (sel ! i)) (fst (sel ! j))))
      else basisValue)"

definition basisValue :: "point list \<Rightarrow> nat \<Rightarrow> jsnum" where
  "basisValue sel i = fold (basis_step sel i) [0..<length sel] (Fin 1)"

text \<open>The outer loop over \<open>i\<close>: \<^verbatim>\<open>secret += yi * basisValue\<close>, from \<^verbatim>\<open>secret = 0\<close>.\<close>

definition secret_step :: "point list \<Rightarrow> nat \<Rightarrow> jsnum \<Rightarrow> jsnum" where
  "secret_step sel i secret = js_add secret (js_mul (snd (sel ! i)) (basisValue sel i))"

definition lagrangeInterpolation :: "point list \<Rightarrow> int \<Rightarrow> jsnum" where
  "lagrangeInterpolation pts k =
     (let selectedPoints = slice0 pts k in
      Math_round (fold (secret_step selectedPoints) [0..<length selectedPoints] (Fin 0)))"

section \<open>parseInt\<close>

text \<open>
  The value of a digit: \<^verbatim>\<open>0-9\<close>, and the letters \<^verbatim>\<open>a-z\<close> or \<^verbatim>\<open>A-Z\<close> for 10 to
  35. These are the digits that \<^verbatim>\<open>parseInt\<close> reads, and the digit alphabet of the
  specification.
\<close>

definition digitValue :: "16 word \<Rightarrow> int option" where
  "digitValue c =
     (let n = unat c in
      if 48 \<le> n \<and> n \<le> 57 then Some (int n - 48)
      else if 97 \<le> n \<and> n \<le> 122 then Some (int n - 87)
      else if 65 \<le> n \<and> n \<le> 90 then Some (int n - 55)
      else None)"

definition digitOf :: "16 word \<Rightarrow> int" where
  "digitOf c = (case digitValue c of Some d \<Rightarrow> d | None \<Rightarrow> 0)"

definition radixDigit :: "int \<Rightarrow> 16 word \<Rightarrow> bool" where
  "radixDigit R c = (case digitValue c of Some d \<Rightarrow> d < R | None \<Rightarrow> False)"

text \<open>White space and line terminators, as \<^verbatim>\<open>parseInt\<close> trims them.\<close>

definition isWhiteSpace :: "16 word \<Rightarrow> bool" where
  "isWhiteSpace c =
     (let u = unat c in
      u \<in> {9, 10, 11, 12, 13, 32, 160, 5760, 8232, 8233, 8239, 8287, 12288, 65279}
        \<or> (8192 \<le> u \<and> u \<le> 8202))"

text \<open>The integer that a string of digits denotes in radix \<open>R\<close>.\<close>

definition mathInt :: "int \<Rightarrow> jsstring \<Rightarrow> int" where
  "mathInt R Z = foldl (\<lambda>a c. a * R + digitOf c) 0 Z"

text \<open>
  For a radix other than 10 and the powers of two, the standard leaves the value that is
  read to the implementation. The programs run under Node.js, whose engine V8 reads the
  digits, leading zeros apart, in parts: it collects digits in a 32-bit \<^verbatim>\<open>part\<close> as
  long as \<^verbatim>\<open>multiplier * radix\<close> stays within \<^verbatim>\<open>0xFFFFFFFF / 36\<close>, and at the end
  of each part sets \<^verbatim>\<open>result = result * multiplier + part\<close> in Numbers, product and sum
  rounded. Where V8 leaves a part at a digit, that digit opens the next part.
\<close>

fun generic_parts :: "int \<Rightarrow> int list \<Rightarrow> jsnum \<Rightarrow> int \<Rightarrow> int \<Rightarrow> jsnum" where
  "generic_parts R [] result part multiplier =
     js_add (js_mul result (Fin (of_int multiplier))) (Fin (of_int part))"
| "generic_parts R (d # ds) result part multiplier =
     (let m = multiplier * R in
      if 119304647 < m
      then generic_parts R ds
             (js_add (js_mul result (Fin (of_int multiplier))) (Fin (of_int part))) d R
      else generic_parts R ds result (part * R + d) m)"

text \<open>
  In radix 10 and in the radices 2, 4, 8, 16 and 32 the value is exact and rounded once.
\<close>

definition parse_digits :: "int \<Rightarrow> jsstring \<Rightarrow> jsnum" where
  "parse_digits R Z =
     (if R \<in> {2, 4, 8, 10, 16, 32} then fl (of_int (mathInt R Z))
      else generic_parts R (map digitOf (dropWhile (\<lambda>c. c = 48) Z)) (Fin 0) 0 1)"

text \<open>
  \<^verbatim>\<open>parseInt(string, radix)\<close> as ECMAScript defines it, on a radix that \<^verbatim>\<open>ToInt32\<close>
  has made an integer (\<open>0\<close> stands for a radix that is absent or \<^verbatim>\<open>NaN\<close>): leading
  white space and one sign are dropped, a radix outside 2 to 36 gives \<^verbatim>\<open>NaN\<close>, radix 16
  or none accepts the prefix \<^verbatim>\<open>0x\<close>, the longest prefix of digits of the radix is read,
  and no digit at all gives \<^verbatim>\<open>NaN\<close>.
\<close>

definition parseInt :: "jsstring \<Rightarrow> int \<Rightarrow> jsnum" where
  "parseInt string radix =
     (let S = dropWhile isWhiteSpace string;
          negative = (take 1 S = str ''-'');
          S = (if take 1 S = str ''-'' \<or> take 1 S = str ''+'' then drop 1 S else S)
      in if radix \<noteq> 0 \<and> (radix < 2 \<or> 36 < radix) then NaN
         else
           let stripPrefix = (radix = 0 \<or> radix = 16);
               R = (if radix = 0 then 10 else radix);
               hex = (stripPrefix \<and> (take 2 S = str ''0x'' \<or> take 2 S = str ''0X''));
               R = (if hex then 16 else R);
               S = (if hex then drop 2 S else S);
               Z = takeWhile (radixDigit R) S
           in if Z = [] then NaN
              else if negative then js_neg (parse_digits R Z) else parse_digits R Z)"

text \<open>\<^verbatim>\<open>ToInt32\<close>: truncate, reduce modulo \<open>2^32\<close> into the signed range.\<close>

definition ToInt32 :: "jsnum \<Rightarrow> int" where
  "ToInt32 x =
     (case x of
        Fin a \<Rightarrow>
          (let i = (if 0 \<le> a then \<lfloor>a\<rfloor> else \<lceil>a\<rceil>); m = i mod 2 ^ 32
           in if 2 ^ 31 \<le> m then m - 2 ^ 32 else m)
      | _ \<Rightarrow> 0)"

section \<open>The pipeline of answer.js\<close>

text \<open>
  The test case: \<^verbatim>\<open>keys.n\<close>, \<^verbatim>\<open>keys.k\<close> (integers) and, under the decimal numeral of
  a key, an object with the strings \<^verbatim>\<open>base\<close> and \<^verbatim>\<open>value\<close>. The loop counter of the
  code is a Number, which counts exactly below \<open>2^53\<close>; the model counts in \<open>int\<close>.
  Writing to the console is left out.
\<close>

record encoded =
  base :: jsstring
  val :: jsstring

record testdata =
  keys_n :: int
  keys_k :: int
  entry :: "int \<rightharpoonup> encoded"

record parsed =
  p_n :: int
  p_k :: int
  points :: "point list"
  totalPointsFound :: nat

fun parse_loop :: "(int \<rightharpoonup> encoded) \<Rightarrow> int list \<Rightarrow> point list \<Rightarrow> error + point list" where
  "parse_loop td [] pts = Inr pts"
| "parse_loop td (i # rest) pts =
     (case td i of
        None \<Rightarrow> parse_loop td rest pts
      | Some e \<Rightarrow>
          (case convertToDecimal (val e) (parseInt (base e) 0) of
             Inl err \<Rightarrow> Inl err
           | Inr y \<Rightarrow> parse_loop td rest (pts @ [(Fin (of_int i), y)])))"

definition parseTestCase :: "testdata \<Rightarrow> error + parsed" where
  "parseTestCase testData =
     (case parse_loop (entry testData) [1..keys_n testData] [] of
        Inl err \<Rightarrow> Inl err
      | Inr pts \<Rightarrow>
          Inr \<lparr>p_n = keys_n testData, p_k = keys_k testData, points = pts,
               totalPointsFound = length pts\<rparr>)"

record solution =
  secret :: jsnum
  pointsUsed :: int
  totalPoints :: nat
  polynomial_degree :: int

definition solveShamirSecretSharing :: "testdata \<Rightarrow> error + solution" where
  "solveShamirSecretSharing testData =
     (case parseTestCase testData of
        Inl err \<Rightarrow> Inl err
      | Inr p \<Rightarrow>
          if int (totalPointsFound p) < p_k p
          then Inl (InsufficientPoints (p_k p) (totalPointsFound p))
          else Inr \<lparr>secret = lagrangeInterpolation (points p) (p_k p),
                    pointsUsed = p_k p,
                    totalPoints = totalPointsFound p,
                    polynomial_degree = p_k p - 1\<rparr>)"

section \<open>The linear-system solver of solvepolynomial.js\<close>

definition parseValue :: "jsstring \<Rightarrow> jsstring \<Rightarrow> jsnum" where
  "parseValue b v = parseInt v (ToInt32 (parseInt b 0))"

text \<open>
  \<^verbatim>\<open>Math.pow(x, p)\<close> for an exponent \<open>p = 0, 1, 2, ...\<close>. The standard fixes the
  result for the exponent 0 and for a base that is not finite, and leaves the rest to the
  implementation. The mathematical libraries in use return the power of an integer base
  exactly when it is a Number; any other result is the parameter \<open>approx\<close>, about which
  nothing is assumed.
\<close>

fun Math_pow :: "(rat \<Rightarrow> nat \<Rightarrow> jsnum) \<Rightarrow> jsnum \<Rightarrow> nat \<Rightarrow> jsnum" where
  "Math_pow approx x 0 = Fin 1"
| "Math_pow approx (Fin a) p =
     (if of_int \<lfloor>a\<rfloor> = a \<and> fl (a ^ p) = Fin (a ^ p) then Fin (a ^ p) else approx a p)"
| "Math_pow approx PInf p = PInf"
| "Math_pow approx NInf p = (if even p then PInf else NInf)"
| "Math_pow approx NaN p = NaN"

text \<open>
  Arrays of Numbers: a read beyond the end gives \<^verbatim>\<open>undefined\<close>, which every operator
  of \<^verbatim>\<open>gaussJordan\<close> turns into \<^verbatim>\<open>NaN\<close>; a write beyond the end extends the array.
  The rows of \<open>A\<close> are distinct arrays, as \<^verbatim>\<open>solvePolynomial\<close> builds them.
\<close>

definition num_at :: "jsnum list \<Rightarrow> nat \<Rightarrow> jsnum" where
  "num_at xs i = (if i < length xs then xs ! i else NaN)"

definition set_at :: "jsnum list \<Rightarrow> nat \<Rightarrow> jsnum \<Rightarrow> jsnum list" where
  "set_at xs i v =
     (if i < length xs then xs[i := v] else xs @ replicate (i - length xs) NaN @ [v])"

type_synonym system = "jsnum list list \<times> jsnum list"

text \<open>The search for the pivot row: the first row from \<open>i\<close> on of largest \<^verbatim>\<open>Math.abs\<close>.\<close>

definition maxRow_step :: "jsnum list list \<Rightarrow> nat \<Rightarrow> nat \<Rightarrow> nat \<Rightarrow> nat" where
  "maxRow_step A i k maxRow =
     (if js_gt (Math_abs (num_at (A ! k) i)) (Math_abs (num_at (A ! maxRow) i))
      then k else maxRow)"

definition find_maxRow :: "jsnum list list \<Rightarrow> nat \<Rightarrow> nat" where
  "find_maxRow A i = fold (maxRow_step A i) [i + 1..<length A] i"

definition swap_rows :: "system \<Rightarrow> nat \<Rightarrow> nat \<Rightarrow> system" where
  "swap_rows Ab i m =
     (let A = fst Ab; b = snd Ab in
      ((A[i := A ! m])[m := A ! i],
       set_at (set_at b i (num_at b m)) m (num_at b i)))"

text \<open>
  With \<open>pivot\<close> for the source's \<^verbatim>\<open>div = A[i][i]\<close>: \<^verbatim>\<open>A[i][j] /= div\<close> for \<open>j\<close>
  from \<open>i\<close>, then \<^verbatim>\<open>b[i] /= div\<close>.
\<close>

definition normalise_row :: "system \<Rightarrow> nat \<Rightarrow> system" where
  "normalise_row Ab i =
     (let A = fst Ab; b = snd Ab; n = length A; pivot = num_at (A ! i) i;
          row = fold (\<lambda>j r. set_at r j (js_div (num_at r j) pivot)) [i..<n] (A ! i)
      in (A[i := row], set_at b i (js_div (num_at b i) pivot)))"

text \<open>
  For a row \<open>k \<noteq> i\<close>: \<^verbatim>\<open>A[k][j] -= factor * A[i][j]\<close> for \<open>j\<close> from \<open>i\<close>, then
  \<^verbatim>\<open>b[k] -= factor * b[i]\<close>.
\<close>

definition eliminate_row :: "nat \<Rightarrow> nat \<Rightarrow> system \<Rightarrow> system" where
  "eliminate_row i k Ab =
     (if k = i then Ab
      else
        let A = fst Ab; b = snd Ab; n = length A; factor = num_at (A ! k) i;
            row = fold (\<lambda>j r. set_at r j (js_sub (num_at r j) (js_mul factor (num_at (A ! i) j))))
                    [i..<n] (A ! k)
        in (A[k := row], set_at b k (js_sub (num_at b k) (js_mul factor (num_at b i)))))"

definition gauss_step :: "nat \<Rightarrow> system \<Rightarrow> system" where
  "gauss_step i Ab =
     (let Ab = swap_rows Ab i (find_maxRow (fst Ab) i);
          Ab = normalise_row Ab i
      in fold (eliminate_row i) [0..<length (fst Ab)] Ab)"

definition gaussJordan :: "jsnum list list \<Rightarrow> jsnum list \<Rightarrow> jsnum list" where
  "gaussJordan A b = snd (fold gauss_step [0..<length A] (A, b))"

text \<open>
  The \<^verbatim>\<open>while\<close> loop of \<^verbatim>\<open>solvePolynomial\<close>, which stops at \<open>k\<close> points or after
  key \<open>n\<close>.
\<close>

function collect_points ::
  "(int \<rightharpoonup> encoded) \<Rightarrow> int \<Rightarrow> int \<Rightarrow> int \<Rightarrow> point list \<Rightarrow> point list" where
  "collect_points jd k n idx pts =
     (if int (length pts) < k \<and> idx \<le> n
      then collect_points jd k n (idx + 1)
             (case jd idx of
                None \<Rightarrow> pts
              | Some e \<Rightarrow> pts @ [(Fin (of_int idx), parseValue (base e) (val e))])
      else pts)"
  by pat_completeness auto
termination
  by (relation "measure (\<lambda>(jd, k, n, idx, pts). nat (n + 1 - idx))") auto

declare collect_points.simps [simp del]

text \<open>
  The result is \<^verbatim>\<open>coeffs[0]\<close>, which is \<^verbatim>\<open>undefined\<close> (\<open>None\<close>) when no point was
  collected.
\<close>

definition solvePolynomial :: "(rat \<Rightarrow> nat \<Rightarrow> jsnum) \<Rightarrow> testdata \<Rightarrow> jsnum option" where
  "solvePolynomial approx jsonData =
     (let n = keys_n jsonData; k = keys_k jsonData;
          pts = collect_points (entry jsonData) k n 1 [];
          A = map (\<lambda>(x, y). map (Math_pow approx x) [0..<nat k]) pts;
          b = map snd pts;
          coeffs = gaussJordan A b
      in case coeffs of [] \<Rightarrow> None | c # cs \<Rightarrow> Some c)"

section \<open>Notions of the specification\<close>

text \<open>
  The digit alphabet as the specification words it: the symbols \<^verbatim>\<open>0-9\<close> and
  \<^verbatim>\<open>a-z\<close>, letters in either case, with the values 0 to 35. A character is a valid
  digit of base \<open>b\<close> when it has a value below \<open>b\<close>.
\<close>

definition validDigit :: "int \<Rightarrow> 16 word \<Rightarrow> bool" where
  "validDigit b c = (case digitValue c of Some d \<Rightarrow> d < b | None \<Rightarrow> False)"

text \<open>
  What \<^verbatim>\<open>convertToDecimal\<close> takes for a digit: a digit of the alphabet, and the Kelvin
  sign \<^verbatim>\<open>U+212A\<close>, which \<^verbatim>\<open>toLowerCase\<close> maps to \<^verbatim>\<open>k\<close>, with the value 20.
\<close>

definition acceptedValue :: "16 word \<Rightarrow> int option" where
  "acceptedValue c = (if c = 0x212A then Some 20 else digitValue c)"

definition acceptedDigit :: "int \<Rightarrow> 16 word \<Rightarrow> bool" where
  "acceptedDigit b c = (validDigit b c \<or> (c = 0x212A \<and> 20 < b))"

text \<open>
  The encoded point of the data model: a base numeral from 2 to 36 and a string of digits
  valid in that base.
\<close>

definition valid_encoded :: "encoded \<Rightarrow> bool" where
  "valid_encoded e =
     (\<exists>b. 2 \<le> b \<and> b \<le> 36 \<and> parseInt (base e) 0 = Fin (of_int b)
          \<and> (\<forall>c \<in> set (val e). validDigit b c))"

text \<open>The keys from 1 to \<open>n\<close> that the input has, in ascending order.\<close>

definition present_keys :: "testdata \<Rightarrow> int list" where
  "present_keys td = filter (\<lambda>i. entry td i \<noteq> None) [1..keys_n td]"

text \<open>
  A point of the input: its abscissa is the key as a Number, its ordinate what
  \<^verbatim>\<open>convertToDecimal\<close> returns for the entry under that key.
\<close>

definition point_of_key :: "testdata \<Rightarrow> int \<Rightarrow> point \<Rightarrow> bool" where
  "point_of_key td i pt =
     (\<exists>e. entry td i = Some e \<and> fst pt = Fin (of_int i)
          \<and> convertToDecimal (val e) (parseInt (base e) 0) = Inr (snd pt))"


text \<open>
  Modelled from the spec: the rendering of an integer \<open>v \<ge> 0\<close> as its digit string in
  base \<open>b\<close>, which the round-trip property names and the source does not contain. It is
  the usual positional notation, most significant digit first, over the digit alphabet.
\<close>

function toDigitString :: "int \<Rightarrow> int \<Rightarrow> jsstring" where
  "toDigitString b v =
     (if b < 2 \<or> v < b then [digits ! nat v]
      else toDigitString b (v div b) @ [digits ! nat (v mod b)])"
  by pat_completeness auto
termination
proof (relation "measure (\<lambda>(b, v). nat v)")
  show "wf (measure (\<lambda>(b, v). nat v))"
    by simp
next
  fix b v :: int
  assume "\<not> (b < 2 \<or> v < b)"
  then have "2 \<le> b" and "b \<le> v"
    by simp_all
  then have "v div b < v"
    by (simp add: int_div_less_self)
  moreover have "0 < v"
    using \<open>2 \<le> b\<close> \<open>b \<le> v\<close> by linarith
  ultimately show "((b, v div b), (b, v)) \<in> measure (\<lambda>(b, v). nat v)"
    by simp
qed

declare toDigitString.simps [simp del]

section \<open>Inputs\<close>

text \<open>Test case 1 of \<^verbatim>\<open>answer.js\<close>.\<close>

definition testCase1 :: testdata where
  "testCase1 =
     \<lparr>keys_n = 4, keys_k = 3,
      entry = [1 \<mapsto> \<lparr>base = str ''10'', val = str ''4''\<rparr>,
               2 \<mapsto> \<lparr>base = str ''2'', val = str ''111''\<rparr>,
               3 \<mapsto> \<lparr>base = str ''10'', val = str ''12''\<rparr>,
               6 \<mapsto> \<lparr>base = str ''4'', val = str ''213''\<rparr>]\<rparr>"

text \<open>Five entries where seven points are needed.\<close>

definition fiveOfSeven :: testdata where
  "fiveOfSeven =
     \<lparr>keys_n = 10, keys_k = 7,
      entry = [1 \<mapsto> \<lparr>base = str ''6'', val = str ''1344''\<rparr>,
               2 \<mapsto> \<lparr>base = str ''15'', val = str ''aed7''\<rparr>,
               4 \<mapsto> \<lparr>base = str ''16'', val = str ''E1B5''\<rparr>,
               7 \<mapsto> \<lparr>base = str ''3'', val = str ''20120''\<rparr>,
               9 \<mapsto> \<lparr>base = str ''12'', val = str ''4515''\<rparr>]\<rparr>"


text \<open>
  The line \<open>f(x) = 1 + 10^15 x\<close> at the keys 3 and 4; every number of the input is an
  integer below \<open>2^53\<close>.
\<close>

definition steepLine :: testdata where
  "steepLine =
     \<lparr>keys_n = 4, keys_k = 2,
      entry = [3 \<mapsto> \<lparr>base = str ''10'', val = str ''3000000000000001''\<rparr>,
               4 \<mapsto> \<lparr>base = str ''10'', val = str ''4000000000000001''\<rparr>]\<rparr>"

section \<open>Evaluation\<close>

lemma floor_rat_numeral_div:
  "\<lfloor>numeral a / numeral b :: rat\<rfloor> = numeral a div numeral b"
  by (metis floor_divide_of_int_eq of_int_numeral)

lemma floor_rat_neg_numeral_div:
  "\<lfloor>- (numeral a / numeral b) :: rat\<rfloor> = - numeral a div numeral b"
  by (metis floor_divide_of_int_eq minus_divide_left of_int_minus of_int_numeral)

lemma floor_rat_one_div:
  "\<lfloor>1 / numeral b :: rat\<rfloor> = 1 div numeral b"
  by (metis floor_divide_of_int_eq of_int_numeral of_int_1)

lemma ceiling_rat_numeral_div:
  "\<lceil>numeral a / numeral b :: rat\<rceil> = - (- numeral a div numeral b)"
  by (simp add: ceiling_def floor_rat_neg_numeral_div)

lemma ceiling_rat_neg_numeral_div:
  "\<lceil>- (numeral a / numeral b) :: rat\<rceil> = - (numeral a div numeral b)"
  by (simp add: ceiling_def floor_rat_numeral_div)

lemmas fl_eval = fl_def ilog2_def pow2_def round_half_even_def Let_def compute_bitlen
  floor_rat_numeral_div floor_rat_neg_numeral_div ceiling_rat_numeral_div
  ceiling_rat_neg_numeral_div floor_rat_one_div

lemmas lagrange_eval = lagrangeInterpolation_def slice0_def secret_step_def basisValue_def
  basis_step_def js_sub_def

lemmas parseInt_eval = parseInt_def parse_digits_def isWhiteSpace_def radixDigit_def
  mathInt_def digitOf_def digitValue_def ToInt32_def parseValue_def str_def

lemmas gauss_eval = gaussJordan_def gauss_step_def eliminate_row_def normalise_row_def
  swap_rows_def find_maxRow_def maxRow_step_def num_at_def set_at_def js_gt_def js_sub_def

text \<open>
  Rounding at work: a value that is kept, two that are not binary fractions, ties that go
  to the even significand on either side, and the least value that rounds to an infinity.
\<close>

lemma fl_examples:
  "fl 1 = Fin 1"
  "fl (1 / 10) = Fin (3602879701896397 / 36028797018963968)"
  "fl (- (1 / 3)) = Fin (- (6004799503160661 / 18014398509481984))"
  "fl 9007199254740993 = Fin 9007199254740992"
  "fl 9007199254740995 = Fin 9007199254740996"
  "fl (- 9007199254740995) = Fin (- 9007199254740996)"
  by (simp_all add: fl_eval cong: let_weak_cong)

text \<open>
  \<^verbatim>\<open>parseInt\<close> at work: radices in which the value is exact, and a radix in which it
  is read in parts.
\<close>

lemma parseInt_examples:
  "parseInt (str '' -0x1F'') 0 = Fin (- 31)"
  "parseInt (str ''12z'') 10 = Fin 12"
  "parseInt (str ''z'') 10 = NaN"
  "parseInt (str ''20220554335330240002224253'') 6 = Fin 58725075613853302784"
  by (simp_all add: parseInt_eval fl_eval cong: let_weak_cong)

section \<open>The digit test of convertToDecimal\<close>

lemma indexOf_digits_unit:
  "indexOf digits [x] =
     (let m = unat x in
      if 48 \<le> m \<and> m \<le> 57 then int m - 48
      else if 97 \<le> m \<and> m \<le> 122 then int m - 87
      else - 1)"
  unfolding indexOf_def digits_def str_def Let_def
  apply (simp add: word_unat_eq_iff)
  apply (insert uint_nat [of x])
  apply presburger
  done

lemma indexOf_digits_unit_at:
  "unat x = m \<Longrightarrow>
   indexOf digits [x] =
     (if 48 \<le> m \<and> m \<le> 57 then int m - 48
      else if 97 \<le> m \<and> m \<le> 122 then int m - 87
      else - 1)"
  by (auto simp: indexOf_digits_unit Let_def)

lemma indexOf_digits_two: "indexOf digits [105, 775] = - 1"
  by (simp add: indexOf_def digits_def str_def)

text \<open>
  What the table holds: the letters \<^verbatim>\<open>A-Z\<close>, the Kelvin sign, and ranges beyond
  \<^verbatim>\<open>z\<close> whose images lie beyond \<^verbatim>\<open>z\<close>.
\<close>

lemma lower_table_ranges:
  "list_all (\<lambda>r. r = (65, 90, 1, 32) \<or> r = (8490, 8490, 1, - 8383)
      \<or> (case r of (lo, hi, stride, d) \<Rightarrow>
            122 < lo \<and> 122 < int lo + d \<and> int hi + d < 65536 \<and> 0 \<le> d + int lo
            \<and> (8490 < lo \<or> hi < 8490))) lower_table"
  by (simp add: lower_table_def)

lemma find_SomeD: "find P xs = Some x \<Longrightarrow> P x \<and> x \<in> set xs"
  by (auto simp: find_Some_iff)

lemma unat_word_of_int_16:
  assumes "0 \<le> t" and "t < 65536"
  shows "unat (word_of_int t :: 16 word) = nat t"
proof -
  have "uint (word_of_int t :: 16 word) = take_bit 16 t"
    by (simp add: uint_word_of_int_eq)
  also have "\<dots> = t"
    using assms by (simp add: take_bit_int_eq_self)
  finally show ?thesis
    by (simp add: unat_eq_nat_uint)
qed

lemma AZ_in_table: "(65, 90, 1, 32) \<in> set lower_table"
  by (simp add: lower_table_def)

lemma Kelvin_in_table: "(8490, 8490, 1, - 8383) \<in> set lower_table"
  by (simp add: lower_table_def)

lemma Kelvin_unat: "(c = (0x212A :: 16 word)) = (unat c = 8490)"
  by (simp add: word_unat_eq_iff)

lemma toLowerCase_unfold:
  "unat c = u \<Longrightarrow>
   toLowerCase c =
     (if u = 304 then [105, 775]
      else case find (in_range u) lower_table of
             None \<Rightarrow> [c]
           | Some (lo, hi, stride, d) \<Rightarrow> [word_of_int (int u + d)])"
  by (auto simp: toLowerCase_def Let_def split: option.splits)

lemma acceptedValue_unfold:
  "unat c = u \<Longrightarrow>
   acceptedValue c =
     (if u = 8490 then Some 20
      else if 48 \<le> u \<and> u \<le> 57 then Some (int u - 48)
      else if 97 \<le> u \<and> u \<le> 122 then Some (int u - 87)
      else if 65 \<le> u \<and> u \<le> 90 then Some (int u - 55)
      else None)"
  by (auto simp: acceptedValue_def Kelvin_unat digitValue_def Let_def)

text \<open>
  The position of \<^verbatim>\<open>c.toLowerCase()\<close> in \<^verbatim>\<open>digits\<close> is the accepted value of
  \<open>c\<close>, and \<open>-1\<close> when it has none.
\<close>

lemma indexOf_digits:
  "indexOf digits (toLowerCase c) = (case acceptedValue c of Some d \<Rightarrow> d | None \<Rightarrow> - 1)"
proof -
  define u where "u = unat c"
  then have uc: "unat c = u"
    by simp
  note lower = toLowerCase_unfold [OF uc]
  note acc = acceptedValue_unfold [OF uc]
  show ?thesis
  proof (cases "u = 304")
    case True
    then show ?thesis
      by (simp add: lower acc indexOf_digits_two)
  next
    case not304: False
    show ?thesis
    proof (cases "find (in_range u) lower_table")
      case None
      then have no: "\<not> in_range u r" if "r \<in> set lower_table" for r
        using that by (cases r) (auto simp: find_None_iff)
      from no [OF AZ_in_table] have az: "\<not> (65 \<le> u \<and> u \<le> 90)"
        by (simp add: in_range_def)
      from no [OF Kelvin_in_table] have k: "u \<noteq> 8490"
        by (auto simp: in_range_def)
      from None not304 have "toLowerCase c = [c]"
        by (simp add: lower)
      with az k show ?thesis
        by (auto simp: indexOf_digits_unit_at [OF uc] acc)
    next
      case (Some r)
      obtain lo hi stride d where r: "r = (lo, hi, stride, d)"
        by (cases r)
      from find_SomeD [OF Some] r have range: "lo \<le> u" "u \<le> hi"
        and mem: "(lo, hi, stride, d) \<in> set lower_table"
        by (simp_all add: in_range_def)
      from Some r not304 have low: "toLowerCase c = [word_of_int (int u + d)]"
        by (simp add: lower)
      from lower_table_ranges mem
      consider "(lo, hi, stride, d) = (65, 90, 1, 32)"
        | "(lo, hi, stride, d) = (8490, 8490, 1, - 8383)"
        | "122 < lo" "122 < int lo + d" "int hi + d < 65536" "8490 < lo \<or> hi < 8490"
        unfolding list_all_iff by fastforce
      then show ?thesis
      proof cases
        case 1
        with range have u: "65 \<le> u" "u \<le> 90" and d: "d = 32"
          by simp_all
        then have "unat (word_of_int (int u + d) :: 16 word) = nat (int u + d)"
          by (intro unat_word_of_int_16) simp_all
        with d have t: "unat (word_of_int (int u + d) :: 16 word) = u + 32"
          by (simp add: nat_add_distrib)
        have "indexOf digits (toLowerCase c)
            = (if 48 \<le> u + 32 \<and> u + 32 \<le> 57 then int (u + 32) - 48
               else if 97 \<le> u + 32 \<and> u + 32 \<le> 122 then int (u + 32) - 87 else - 1)"
          unfolding low by (rule indexOf_digits_unit_at [OF t])
        with u show ?thesis
          by (simp add: acc)
      next
        case 2
        with range have u: "u = 8490" and d: "d = - 8383"
          by simp_all
        then have "unat (word_of_int (int u + d) :: 16 word) = nat (int u + d)"
          by (intro unat_word_of_int_16) simp_all
        with u d have t: "unat (word_of_int (int u + d) :: 16 word) = 107"
          by simp
        have "indexOf digits (toLowerCase c)
            = (if 48 \<le> (107::nat) \<and> (107::nat) \<le> 57 then int 107 - 48
               else if 97 \<le> (107::nat) \<and> (107::nat) \<le> 122 then int 107 - 87 else - 1)"
          unfolding low by (rule indexOf_digits_unit_at [OF t])
        with u show ?thesis
          by (simp add: acc)
      next
        case 3
        from 3(2) range(1) have lo_t: "122 < int u + d"
          by linarith
        from 3(3) range(2) have hi_t: "int u + d < 65536"
          by linarith
        from lo_t hi_t
        have t: "unat (word_of_int (int u + d) :: 16 word) = nat (int u + d)"
          by (intro unat_word_of_int_16) simp_all
        from lo_t have big: "122 < nat (int u + d)"
          by simp
        from 3(1,4) range have "122 < u" "u \<noteq> 8490"
          by linarith+
        moreover have "indexOf digits (toLowerCase c)
            = (if 48 \<le> nat (int u + d) \<and> nat (int u + d) \<le> 57 then int (nat (int u + d)) - 48
               else if 97 \<le> nat (int u + d) \<and> nat (int u + d) \<le> 122
                    then int (nat (int u + d)) - 87 else - 1)"
          unfolding low by (rule indexOf_digits_unit_at [OF t])
        ultimately show ?thesis
          using big by (simp add: acc)
      qed
    qed
  qed
qed

lemmas convert_eval = convertToDecimal_def str_def indexOf_digits acceptedValue_def
  digitValue_def js_ge_def

lemma digitValue_unfold:
  "unat c = u \<Longrightarrow>
   digitValue c =
     (if 48 \<le> u \<and> u \<le> 57 then Some (int u - 48)
      else if 97 \<le> u \<and> u \<le> 122 then Some (int u - 87)
      else if 65 \<le> u \<and> u \<le> 90 then Some (int u - 55)
      else None)"
  by (auto simp: digitValue_def Let_def)

lemma digitValue_nonneg:
  assumes "digitValue c = Some d"
  shows "0 \<le> d"
proof -
  define u where "u = unat c"
  then have "unat c = u"
    by simp
  from digitValue_unfold [OF this] assms show ?thesis
    by (auto split: if_splits)
qed

lemma acceptedDigit_iff:
  "acceptedDigit b c = (case acceptedValue c of Some d \<Rightarrow> d < b | None \<Rightarrow> False)"
  by (auto simp: acceptedDigit_def acceptedValue_def validDigit_def Kelvin_unat digitValue_def
      Let_def split: option.splits)

lemma acceptedValue_nonneg: "acceptedValue c = Some d \<Longrightarrow> 0 \<le> d"
  by (auto simp: acceptedValue_def dest: digitValue_nonneg split: if_splits)

lemma validDigit_accepted: "validDigit b c \<Longrightarrow> acceptedDigit b c"
  by (simp add: acceptedDigit_def)

text \<open>
  The test \<^verbatim>\<open>digit === -1 || digit >= base\<close> rejects what is no accepted digit, and
  nothing else.
\<close>

lemma digit_test:
  "(indexOf digits (toLowerCase c) = - 1
      \<or> js_ge (Fin (of_int (indexOf digits (toLowerCase c)))) (Fin (of_int b)))
   = (\<not> acceptedDigit b c)"
proof (cases "acceptedValue c")
  case None
  then show ?thesis
    by (simp add: indexOf_digits acceptedDigit_iff)
next
  case (Some d)
  then have "0 \<le> d"
    by (rule acceptedValue_nonneg)
  with Some show ?thesis
    by (auto simp: indexOf_digits acceptedDigit_iff js_ge_def)
qed

lemma convert_loop_first_rejected:
  "find (\<lambda>c. \<not> acceptedDigit b c) cs = Some c \<Longrightarrow>
     convert_loop (Fin (of_int b)) cs r = Inl (InvalidDigit c (Fin (of_int b)))"
proof (induction cs arbitrary: r)
  case Nil
  then show ?case by simp
next
  case (Cons x cs)
  show ?case
  proof (cases "acceptedDigit b x")
    case True
    with Cons.prems have "find (\<lambda>c. \<not> acceptedDigit b c) cs = Some c"
      by simp
    from Cons.IH [OF this] True show ?thesis
      using digit_test [of x b] by (simp add: Let_def)
  next
    case False
    with Cons.prems have "c = x"
      by simp
    with False show ?thesis
      using digit_test [of x b] by (simp add: Let_def)
  qed
qed

lemma convert_loop_accepted:
  "find (\<lambda>c. \<not> acceptedDigit b c) cs = None \<Longrightarrow>
     \<exists>y. convert_loop (Fin (of_int b)) cs r = Inr y"
proof (induction cs arbitrary: r)
  case Nil
  show ?case by simp
next
  case (Cons x cs)
  then have "acceptedDigit b x" and "find (\<lambda>c. \<not> acceptedDigit b c) cs = None"
    by (simp_all split: if_splits)
  then show ?case
    using Cons.IH digit_test [of x b] by (simp add: Let_def)
qed

lemma convert_loop_valid:
  assumes "\<forall>c \<in> set cs. validDigit b c"
  shows "\<exists>y. convert_loop (Fin (of_int b)) cs r = Inr y"
proof -
  from assms have "find (\<lambda>c. \<not> acceptedDigit b c) cs = None"
    by (auto simp: find_None_iff validDigit_accepted)
  then show ?thesis
    by (rule convert_loop_accepted)
qed

section \<open>Claims on the base converter\<close>

text \<open>
  Claim C9, as amended. The loop of \<^verbatim>\<open>convertToDecimal\<close> does not run on the empty
  string and there is no test for it: the function raises no error and returns 0, whatever
  the base.
\<close>

theorem convertToDecimal_empty: "convertToDecimal [] b = Inr (Fin 0)"
  by (simp add: convertToDecimal_def)

text \<open>
  Claim C9 as stated (the empty string is rejected with an error) fails: for base 10 the
  function returns the Number 0.
\<close>

theorem convertToDecimal_empty_returns: "convertToDecimal (str []) (Fin 10) = Inr (Fin 0)"
  by (simp add: convertToDecimal_def str_def)

text \<open>
  Claim C7 as stated fails at the Kelvin sign \<^verbatim>\<open>U+212A\<close>: it is no symbol of the digit
  alphabet, in either case, and in base 36 \<^verbatim>\<open>convertToDecimal\<close> raises no error on it
  and returns 20, the value of the \<^verbatim>\<open>k\<close> that \<^verbatim>\<open>toLowerCase\<close> makes of it.
\<close>

theorem convertToDecimal_Kelvin:
  "\<not> validDigit 36 0x212A \<and> convertToDecimal [0x212A] (Fin 36) = Inr (Fin 20)"
  by (simp add: validDigit_def convert_eval fl_eval cong: let_weak_cong)

text \<open>
  Claim C7, as amended. For a base \<open>b\<close> from 2 to 36, \<^verbatim>\<open>convertToDecimal\<close> fails if
  and only if some code unit of the string is no accepted digit of base \<open>b\<close>: neither a
  symbol of the digit alphabet with a value below \<open>b\<close> nor, for \<open>b > 20\<close>, the Kelvin
  sign. The error it raises is \<^verbatim>\<open>InvalidDigit\<close> with the first such code unit and the
  base; on a string of accepted digits it returns a Number.
\<close>

theorem convertToDecimal_InvalidDigit_iff:
  assumes "2 \<le> b" and "b \<le> 36"
  shows "((\<exists>err. convertToDecimal v (Fin (of_int b)) = Inl err)
            = (\<exists>c \<in> set v. \<not> acceptedDigit b c))
       \<and> (\<forall>c. find (\<lambda>c. \<not> acceptedDigit b c) v = Some c \<longrightarrow>
             convertToDecimal v (Fin (of_int b)) = Inl (InvalidDigit c (Fin (of_int b))))
       \<and> ((\<forall>c \<in> set v. acceptedDigit b c) \<longrightarrow> (\<exists>y. convertToDecimal v (Fin (of_int b)) = Inr y))"
proof -
  have first: "convertToDecimal v (Fin (of_int b)) = Inl (InvalidDigit c (Fin (of_int b)))"
    if "find (\<lambda>c. \<not> acceptedDigit b c) v = Some c" for c
    using convert_loop_first_rejected [OF that, of "Fin 0"] by (simp add: convertToDecimal_def)
  have none: "\<exists>y. convertToDecimal v (Fin (of_int b)) = Inr y"
    if "find (\<lambda>c. \<not> acceptedDigit b c) v = None"
    using convert_loop_accepted [OF that, of "Fin 0"] by (simp add: convertToDecimal_def)
  have "(\<exists>err. convertToDecimal v (Fin (of_int b)) = Inl err) = (\<exists>c \<in> set v. \<not> acceptedDigit b c)"
  proof (cases "find (\<lambda>c. \<not> acceptedDigit b c) v")
    case None
    with none show ?thesis
      by (auto simp: find_None_iff)
  next
    case (Some c)
    with first [OF Some] show ?thesis
      by (auto simp: find_Some_iff)
  qed
  moreover have "\<exists>y. convertToDecimal v (Fin (of_int b)) = Inr y"
    if "\<forall>c \<in> set v. acceptedDigit b c"
    using that none by (auto simp: find_None_iff)
  ultimately show ?thesis
    using first by blast
qed

text \<open>
  The claim at base 16: \<^verbatim>\<open>1g2h\<close> is rejected for its \<^verbatim>\<open>g\<close>, the first code unit
  that is no digit, and \<^verbatim>\<open>1F\<close> is converted.
\<close>

theorem convertToDecimal_InvalidDigit_iff_witness:
  "(2::int) \<le> 16 \<and> (16::int) \<le> 36
     \<and> find (\<lambda>c. \<not> acceptedDigit 16 c) (str ''1g2h'') = Some 0x67
     \<and> convertToDecimal (str ''1g2h'') (Fin 16) = Inl (InvalidDigit 0x67 (Fin 16))
     \<and> (\<exists>y. convertToDecimal (str ''1F'') (Fin 16) = Inr y)"
proof -
  have g: "find (\<lambda>c. \<not> acceptedDigit 16 c) (str ''1g2h'') = Some 0x67"
    by (simp add: str_def acceptedDigit_def validDigit_def digitValue_def)
  have ok: "\<forall>c \<in> set (str ''1F''). acceptedDigit 16 c"
    by (simp add: str_def acceptedDigit_def validDigit_def digitValue_def)
  from convertToDecimal_InvalidDigit_iff [of 16 "str ''1g2h''"] g
  have "convertToDecimal (str ''1g2h'') (Fin 16) = Inl (InvalidDigit 0x67 (Fin 16))"
    by simp
  with g ok convertToDecimal_InvalidDigit_iff [of 16 "str ''1F''"] show ?thesis
    by simp
qed

section \<open>Extracting the points\<close>

lemma parse_loop_Inr:
  "parse_loop (entry td) ks acc = Inr pts \<Longrightarrow>
     \<exists>new. pts = acc @ new
        \<and> list_all2 (point_of_key td) (filter (\<lambda>i. entry td i \<noteq> None) ks) new"
proof (induction ks arbitrary: acc)
  case Nil
  then show ?case by simp
next
  case (Cons i ks)
  show ?case
  proof (cases "entry td i")
    case None
    with Cons.prems have "parse_loop (entry td) ks acc = Inr pts"
      by simp
    from Cons.IH [OF this] None show ?thesis
      by simp
  next
    case (Some e)
    show ?thesis
    proof (cases "convertToDecimal (val e) (parseInt (base e) 0)")
      case (Inl err)
      with Some Cons.prems show ?thesis
        by simp
    next
      case (Inr y)
      with Some Cons.prems
      have "parse_loop (entry td) ks (acc @ [(Fin (of_int i), y)]) = Inr pts"
        by simp
      from Cons.IH [OF this] obtain new where
        new: "pts = (acc @ [(Fin (of_int i), y)]) @ new"
          "list_all2 (point_of_key td) (filter (\<lambda>i. entry td i \<noteq> None) ks) new"
        by blast
      have "point_of_key td i (Fin (of_int i), y)"
        using Some Inr by (simp add: point_of_key_def)
      with new Some show ?thesis
        by simp
    qed
  qed
qed

lemma parse_loop_Inl:
  "parse_loop (entry td) ks acc = Inl err \<Longrightarrow>
     \<exists>i \<in> set ks. \<exists>e. entry td i = Some e
        \<and> convertToDecimal (val e) (parseInt (base e) 0) = Inl err"
proof (induction ks arbitrary: acc)
  case Nil
  then show ?case by simp
next
  case (Cons i ks)
  show ?case
  proof (cases "entry td i")
    case None
    with Cons.prems have "parse_loop (entry td) ks acc = Inl err"
      by simp
    from Cons.IH [OF this] show ?thesis
      by auto
  next
    case (Some e)
    show ?thesis
    proof (cases "convertToDecimal (val e) (parseInt (base e) 0)")
      case (Inl err')
      with Some Cons.prems show ?thesis
        by auto
    next
      case (Inr y)
      with Some Cons.prems
      have "parse_loop (entry td) ks (acc @ [(Fin (of_int i), y)]) = Inl err"
        by simp
      from Cons.IH [OF this] show ?thesis
        by auto
    qed
  qed
qed

lemma valid_encoded_decodes:
  assumes "valid_encoded e"
  shows "\<exists>y. convertToDecimal (val e) (parseInt (base e) 0) = Inr y"
proof -
  from assms obtain b where "parseInt (base e) 0 = Fin (of_int b)"
    and "\<forall>c \<in> set (val e). validDigit b c"
    by (auto simp: valid_encoded_def)
  then show ?thesis
    using convert_loop_valid [of "val e" b "Fin 0"] by (simp add: convertToDecimal_def)
qed

lemma parseTestCase_Inr:
  assumes "parseTestCase td = Inr p"
  shows "list_all2 (point_of_key td) (present_keys td) (points p)"
    and "totalPointsFound p = length (points p)"
    and "p_k p = keys_k td"
proof -
  from assms obtain pts where pts: "parse_loop (entry td) [1..keys_n td] [] = Inr pts"
    and p: "p = \<lparr>p_n = keys_n td, p_k = keys_k td, points = pts, totalPointsFound = length pts\<rparr>"
    by (auto simp: parseTestCase_def split: sum.splits)
  from parse_loop_Inr [OF pts] p
  show "list_all2 (point_of_key td) (present_keys td) (points p)"
    by (simp add: present_keys_def)
  from p show "totalPointsFound p = length (points p)" and "p_k p = keys_k td"
    by simp_all
qed

lemma parseTestCase_valid:
  assumes "\<forall>i \<in> set (present_keys td). \<forall>e. entry td i = Some e \<longrightarrow> valid_encoded e"
  shows "\<exists>p. parseTestCase td = Inr p"
proof (cases "parse_loop (entry td) [1..keys_n td] []")
  case (Inl err)
  from parse_loop_Inl [OF this] obtain i e where
    i: "i \<in> set [1..keys_n td]" "entry td i = Some e"
    and err: "convertToDecimal (val e) (parseInt (base e) 0) = Inl err"
    by blast
  from i have "i \<in> set (present_keys td)"
    by (simp add: present_keys_def)
  with assms i have "valid_encoded e"
    by blast
  from valid_encoded_decodes [OF this] err show ?thesis
    by simp
next
  case (Inr pts)
  then show ?thesis
    by (simp add: parseTestCase_def)
qed

lemma points_abscissae:
  assumes "list_all2 (point_of_key td) ks pts"
  shows "map fst pts = map (\<lambda>i. Fin (of_int i)) ks"
  using assms by (induction rule: list_all2_induct) (auto simp: point_of_key_def)

lemma sorted_present_keys: "sorted_wrt (<) (present_keys td)"
  unfolding present_keys_def by (rule sorted_wrt_filter) simp

lemma sorted_abscissae:
  assumes "sorted_wrt (<) ks"
  shows "sorted_wrt js_lt (map (\<lambda>i. Fin (of_int i)) (ks :: int list))"
  using assms by (simp add: sorted_wrt_map)

lemma distinct_abscissae:
  assumes "sorted_wrt (<) ks"
  shows "distinct (map (\<lambda>i. Fin (of_int i)) (ks :: int list))"
proof -
  from assms have "distinct ks"
    by (simp add: strict_sorted_iff)
  then show ?thesis
    by (simp add: distinct_map inj_on_def)
qed

lemma map_fst_slice0: "map fst (slice0 pts k) = slice0 (map fst pts) k"
  by (simp add: slice0_def take_map)

lemma distinct_slice0: "distinct xs \<Longrightarrow> distinct (slice0 xs k)"
  by (simp add: slice0_def)



section \<open>Claims on the extraction of points\<close>

text \<open>
  Claim C5. When fewer than \<open>k\<close> of the keys 1 to \<open>n\<close> carry an entry,
  \<^verbatim>\<open>solveShamirSecretSharing\<close> fails and returns no result; when the entries are
  encoded points of the data model, the error is \<^verbatim>\<open>InsufficientPoints\<close> with
  \<open>k\<close> as the number needed and the number of entries present as the number found.
  (An entry with a digit that is invalid in its base makes \<^verbatim>\<open>parseTestCase\<close> fail with
  \<^verbatim>\<open>InvalidDigit\<close> before the points are counted.)
\<close>

theorem insufficient_points:
  assumes "keys_n td < 2 ^ 53"
    and "int (length (present_keys td)) < keys_k td"
  shows "(\<exists>err. solveShamirSecretSharing td = Inl err)
       \<and> ((\<forall>i \<in> set (present_keys td). \<forall>e. entry td i = Some e \<longrightarrow> valid_encoded e) \<longrightarrow>
            solveShamirSecretSharing td
              = Inl (InsufficientPoints (keys_k td) (length (present_keys td))))"
proof -
  have found: "solveShamirSecretSharing td
      = Inl (InsufficientPoints (keys_k td) (length (present_keys td)))"
    if "parseTestCase td = Inr p" for p
  proof -
    from parseTestCase_Inr [OF that]
    have "length (points p) = length (present_keys td)"
      and "totalPointsFound p = length (points p)" and "p_k p = keys_k td"
      by (simp_all add: list_all2_lengthD)
    with that assms(2) show ?thesis
      by (simp add: solveShamirSecretSharing_def)
  qed
  have "\<exists>err. solveShamirSecretSharing td = Inl err"
  proof (cases "parseTestCase td")
    case (Inl err)
    then show ?thesis
      by (simp add: solveShamirSecretSharing_def)
  next
    case (Inr p)
    from found [OF this] show ?thesis
      by blast
  qed
  moreover have "solveShamirSecretSharing td
      = Inl (InsufficientPoints (keys_k td) (length (present_keys td)))"
    if "\<forall>i \<in> set (present_keys td). \<forall>e. entry td i = Some e \<longrightarrow> valid_encoded e"
    using parseTestCase_valid [OF that] found by blast
  ultimately show ?thesis
    by blast
qed

lemma present_keys_fiveOfSeven: "present_keys fiveOfSeven = [1, 2, 4, 7, 9]"
  by (simp add: present_keys_def fiveOfSeven_def upto_rec1)

lemma parseInt_small:
  "parseInt (str ''6'') 0 = Fin 6" "parseInt (str ''15'') 0 = Fin 15" "parseInt (str ''16'') 0 = Fin 16"
  "parseInt (str ''3'') 0 = Fin 3" "parseInt (str ''12'') 0 = Fin 12" "parseInt (str ''10'') 0 = Fin 10"
  "parseInt (str ''2'') 0 = Fin 2" "parseInt (str ''4'') 0 = Fin 4"
  by (simp_all add: parseInt_eval fl_eval cong: let_weak_cong)

lemma valid_encodedI:
  assumes "parseInt (base e) 0 = Fin (of_int b)" and "2 \<le> b" and "b \<le> 36"
    and "\<forall>c \<in> set (val e). validDigit b c"
  shows "valid_encoded e"
  using assms unfolding valid_encoded_def by blast

lemma valid_fiveOfSeven:
  "\<forall>i \<in> set (present_keys fiveOfSeven). \<forall>e. entry fiveOfSeven i = Some e \<longrightarrow> valid_encoded e"
proof -
  have "valid_encoded \<lparr>base = str ''6'', val = str ''1344''\<rparr>"
    by (rule valid_encodedI [where b = 6]) (simp_all add: parseInt_small, simp_all add: str_def validDigit_def digitValue_def)
  moreover have "valid_encoded \<lparr>base = str ''15'', val = str ''aed7''\<rparr>"
    by (rule valid_encodedI [where b = 15]) (simp_all add: parseInt_small, simp_all add: str_def validDigit_def digitValue_def)
  moreover have "valid_encoded \<lparr>base = str ''16'', val = str ''E1B5''\<rparr>"
    by (rule valid_encodedI [where b = 16]) (simp_all add: parseInt_small, simp_all add: str_def validDigit_def digitValue_def)
  moreover have "valid_encoded \<lparr>base = str ''3'', val = str ''20120''\<rparr>"
    by (rule valid_encodedI [where b = 3]) (simp_all add: parseInt_small, simp_all add: str_def validDigit_def digitValue_def)
  moreover have "valid_encoded \<lparr>base = str ''12'', val = str ''4515''\<rparr>"
    by (rule valid_encodedI [where b = 12]) (simp_all add: parseInt_small, simp_all add: str_def validDigit_def digitValue_def)
  ultimately show ?thesis
    by (simp add: present_keys_fiveOfSeven) (simp add: fiveOfSeven_def)
qed

text \<open>Seven points needed, five entries present: \<^verbatim>\<open>InsufficientPoints(7, 5)\<close>.\<close>

theorem insufficient_points_witness:
  "keys_n fiveOfSeven < 2 ^ 53
     \<and> int (length (present_keys fiveOfSeven)) < keys_k fiveOfSeven
     \<and> solveShamirSecretSharing fiveOfSeven = Inl (InsufficientPoints 7 5)"
proof -
  have n: "keys_n fiveOfSeven < 2 ^ 53"
    by (simp add: fiveOfSeven_def)
  have few: "int (length (present_keys fiveOfSeven)) < keys_k fiveOfSeven"
    by (simp add: present_keys_fiveOfSeven) (simp add: fiveOfSeven_def)
  from insufficient_points [OF n few] valid_fiveOfSeven
  have "solveShamirSecretSharing fiveOfSeven
      = Inl (InsufficientPoints (keys_k fiveOfSeven) (length (present_keys fiveOfSeven)))"
    by blast
  then have "solveShamirSecretSharing fiveOfSeven = Inl (InsufficientPoints 7 5)"
    by (simp add: present_keys_fiveOfSeven) (simp add: fiveOfSeven_def)
  with n few show ?thesis
    by blast
qed



lemma parseTestCase_testCase1:
  "parseTestCase testCase1
     = Inr \<lparr>p_n = 4, p_k = 3, points = [(Fin 1, Fin 4), (Fin 2, Fin 7), (Fin 3, Fin 12)],
            totalPointsFound = 3\<rparr>"
  by (simp add: parseTestCase_def testCase1_def upto_rec1 parseInt_small)
     (simp add: convert_eval parseInt_eval fl_eval cong: let_weak_cong)






text \<open>
  Claim C10. The points that \<^verbatim>\<open>parseTestCase\<close> returns have strictly increasing
  abscissae, each is the point of a key present among 1 to \<open>n\<close>, and the points that
  \<^verbatim>\<open>lagrangeInterpolation\<close> selects from them have pairwise distinct abscissae.
\<close>

theorem points_strictly_increasing:
  assumes "keys_n td < 2 ^ 53" and "parseTestCase td = Inr p"
  shows "sorted_wrt js_lt (map fst (points p))
       \<and> list_all2 (point_of_key td) (present_keys td) (points p)
       \<and> (\<forall>i \<in> set (present_keys td). 1 \<le> i \<and> i \<le> keys_n td \<and> entry td i \<noteq> None)
       \<and> distinct (map fst (slice0 (points p) (keys_k td)))"
proof -
  note p = parseTestCase_Inr [OF assms(2)]
  have xs: "map fst (points p) = map (\<lambda>i. Fin (of_int i)) (present_keys td)"
    using p(1) by (rule points_abscissae)
  have "sorted_wrt js_lt (map fst (points p))"
    unfolding xs using sorted_present_keys by (rule sorted_abscissae)
  moreover have "distinct (map fst (points p))"
    unfolding xs using sorted_present_keys by (rule distinct_abscissae)
  then have "distinct (map fst (slice0 (points p) (keys_k td)))"
    unfolding map_fst_slice0 by (rule distinct_slice0)
  moreover have "\<forall>i \<in> set (present_keys td). 1 \<le> i \<and> i \<le> keys_n td \<and> entry td i \<noteq> None"
    by (simp add: present_keys_def)
  ultimately show ?thesis
    using p(1) by blast
qed

text \<open>The points of test case 1.\<close>

theorem points_strictly_increasing_witness:
  "keys_n testCase1 < 2 ^ 53
     \<and> (\<exists>p. parseTestCase testCase1 = Inr p
            \<and> points p = [(Fin 1, Fin 4), (Fin 2, Fin 7), (Fin 3, Fin 12)]
            \<and> sorted_wrt js_lt (map fst (points p))
            \<and> distinct (map fst (slice0 (points p) (keys_k testCase1))))"
proof -
  have n: "keys_n testCase1 < 2 ^ 53"
    by (simp add: testCase1_def)
  from points_strictly_increasing [OF n parseTestCase_testCase1] n parseTestCase_testCase1
  show ?thesis
    by simp
qed

section \<open>Values that are not finite\<close>

lemma not_finite_cases: "\<not> is_finite x \<longleftrightarrow> x = PInf \<or> x = NInf \<or> x = NaN"
  by (cases x) (simp_all add: is_finite_def)

lemma js_neg_not_finite: "\<not> is_finite x \<Longrightarrow> \<not> is_finite (js_neg x)"
  by (cases x) (simp_all add: is_finite_def)

lemma js_mul_not_finite_left: "\<not> is_finite x \<Longrightarrow> \<not> is_finite (js_mul x y)"
  by (cases x; cases y) (simp_all add: is_finite_def)

lemma js_mul_not_finite_right: "\<not> is_finite y \<Longrightarrow> \<not> is_finite (js_mul x y)"
  by (cases x; cases y) (simp_all add: is_finite_def)

lemma js_add_not_finite_left: "\<not> is_finite x \<Longrightarrow> \<not> is_finite (js_add x y)"
  by (cases x; cases y) (simp_all add: is_finite_def)

lemma js_add_not_finite_right: "\<not> is_finite y \<Longrightarrow> \<not> is_finite (js_add x y)"
  by (cases x; cases y) (simp_all add: is_finite_def)

lemma Math_round_not_finite: "\<not> is_finite x \<Longrightarrow> \<not> is_finite (Math_round x)"
  by (cases x) (simp_all add: is_finite_def)

lemma fl_zero: "fl 0 = Fin 0"
  by (simp add: fl_def)

text \<open>\<^verbatim>\<open>x - x\<close> is zero or \<^verbatim>\<open>NaN\<close>, and a quotient by either is not finite.\<close>

lemma js_sub_self: "js_sub x x = Fin 0 \<or> js_sub x x = NaN"
  by (cases x) (simp_all add: js_sub_def fl_zero)

lemma js_div_zero_not_finite: "z = Fin 0 \<or> z = NaN \<Longrightarrow> \<not> is_finite (js_div y z)"
  by (cases y) (auto simp: is_finite_def split: if_splits)

lemma basis_step_equal_abscissae:
  assumes "i \<noteq> j" and "fst (sel ! i) = fst (sel ! j)"
  shows "\<not> is_finite (basis_step sel i j v)"
proof -
  have "js_sub (fst (sel ! i)) (fst (sel ! j)) = Fin 0
      \<or> js_sub (fst (sel ! i)) (fst (sel ! j)) = NaN"
    using assms(2) js_sub_self [of "fst (sel ! j)"] by simp
  then have "\<not> is_finite (js_div (js_sub (Fin 0) (fst (sel ! j)))
      (js_sub (fst (sel ! i)) (fst (sel ! j))))"
    by (rule js_div_zero_not_finite)
  then show ?thesis
    using assms(1) by (simp add: basis_step_def js_mul_not_finite_right)
qed

lemma basis_step_keeps: "\<not> is_finite v \<Longrightarrow> \<not> is_finite (basis_step sel i j v)"
  by (simp add: basis_step_def js_mul_not_finite_left)

lemma fold_basis_step_keeps:
  "\<not> is_finite v \<Longrightarrow> \<not> is_finite (fold (basis_step sel i) js v)"
  by (induction js arbitrary: v) (simp_all add: basis_step_keeps)

lemma fold_basis_step_equal_abscissae:
  assumes "j \<in> set js" and "i \<noteq> j" and "fst (sel ! i) = fst (sel ! j)"
  shows "\<not> is_finite (fold (basis_step sel i) js v)"
proof -
  from assms(1) obtain pre post where "js = pre @ j # post"
    by (auto simp: in_set_conv_decomp)
  then show ?thesis
    using basis_step_equal_abscissae [OF assms(2,3)]
    by (simp add: fold_basis_step_keeps)
qed

lemma basisValue_equal_abscissae:
  assumes "j < length sel" and "i \<noteq> j" and "fst (sel ! i) = fst (sel ! j)"
  shows "\<not> is_finite (basisValue sel i)"
  unfolding basisValue_def using assms
  by (intro fold_basis_step_equal_abscissae [of j]) simp_all

lemma secret_step_keeps: "\<not> is_finite s \<Longrightarrow> \<not> is_finite (secret_step sel i s)"
  by (simp add: secret_step_def js_add_not_finite_left)

lemma fold_secret_step_keeps:
  "\<not> is_finite s \<Longrightarrow> \<not> is_finite (fold (secret_step sel) is s)"
  by (induction "is" arbitrary: s) (simp_all add: secret_step_keeps)

lemma fold_secret_step_equal_abscissae:
  assumes "i \<in> set is" and "\<not> is_finite (basisValue sel i)"
  shows "\<not> is_finite (fold (secret_step sel) is s)"
proof -
  from assms(1) obtain pre post where "is = pre @ i # post"
    by (auto simp: in_set_conv_decomp)
  moreover have "\<not> is_finite (secret_step sel i t)" for t
    using assms(2) by (simp add: secret_step_def js_add_not_finite_right js_mul_not_finite_right)
  ultimately show ?thesis
    by (simp add: fold_secret_step_keeps)
qed

section \<open>Claims on the interpolation\<close>

text \<open>
  Claim C4 as stated (a repeated abscissa makes the interpolation fail with an error) fails:
  for the points \<open>(1, 1)\<close> and \<open>(1, 2)\<close> \<^verbatim>\<open>lagrangeInterpolation\<close> returns
  \<^verbatim>\<open>-Infinity\<close>, and \<^verbatim>\<open>gaussJordan\<close> on their linear system returns the
  coefficients \<^verbatim>\<open>-Infinity\<close> and \<^verbatim>\<open>Infinity\<close>.
\<close>

theorem duplicate_abscissa_returns:
  "lagrangeInterpolation [(Fin 1, Fin 1), (Fin 1, Fin 2)] 2 = NInf
     \<and> gaussJordan [ [Fin 1, Fin 1], [Fin 1, Fin 1] ] [Fin 1, Fin 2] = [NInf, PInf]"
  by (simp add: lagrange_eval gauss_eval fl_eval cong: let_weak_cong)

text \<open>
  Claim C4, as amended. \<^verbatim>\<open>lagrangeInterpolation\<close> has no test for a repeated abscissa
  and raises no error; when two of the selected points have the same abscissa, the Number
  it returns is \<^verbatim>\<open>NaN\<close>, \<^verbatim>\<open>Infinity\<close> or \<^verbatim>\<open>-Infinity\<close>, never a finite one.
\<close>

theorem duplicate_abscissa_not_finite:
  assumes "i < length (slice0 pts k)" and "j < length (slice0 pts k)" and "i \<noteq> j"
    and "fst (slice0 pts k ! i) = fst (slice0 pts k ! j)"
  shows "lagrangeInterpolation pts k = NaN \<or> lagrangeInterpolation pts k = PInf
       \<or> lagrangeInterpolation pts k = NInf"
proof -
  let ?sel = "slice0 pts k"
  have "\<not> is_finite (basisValue ?sel i)"
    using assms(2,3,4) by (rule basisValue_equal_abscissae)
  with assms(1) have "\<not> is_finite (fold (secret_step ?sel) [0..<length ?sel] (Fin 0))"
    by (intro fold_secret_step_equal_abscissae [of i]) simp_all
  then have "\<not> is_finite (lagrangeInterpolation pts k)"
    by (simp add: lagrangeInterpolation_def Let_def Math_round_not_finite)
  then show ?thesis
    by (auto simp: not_finite_cases)
qed

text \<open>Three points, the first two at the abscissa 0: the result is \<^verbatim>\<open>NaN\<close>.\<close>

theorem duplicate_abscissa_not_finite_witness:
  "(0::nat) < length (slice0 [(Fin 0, Fin 5), (Fin 0, Fin 7), (Fin 2, Fin 1)] 3)
     \<and> (1::nat) < length (slice0 [(Fin 0, Fin 5), (Fin 0, Fin 7), (Fin 2, Fin 1)] 3)
     \<and> fst (slice0 [(Fin 0, Fin 5), (Fin 0, Fin 7), (Fin 2, Fin 1)] 3 ! 0)
         = fst (slice0 [(Fin 0, Fin 5), (Fin 0, Fin 7), (Fin 2, Fin 1)] 3 ! 1)
     \<and> (lagrangeInterpolation [(Fin 0, Fin 5), (Fin 0, Fin 7), (Fin 2, Fin 1)] 3 = NaN
        \<or> lagrangeInterpolation [(Fin 0, Fin 5), (Fin 0, Fin 7), (Fin 2, Fin 1)] 3 = PInf
        \<or> lagrangeInterpolation [(Fin 0, Fin 5), (Fin 0, Fin 7), (Fin 2, Fin 1)] 3 = NInf)"
proof -
  let ?pts = "[(Fin 0, Fin 5), (Fin 0, Fin 7), (Fin 2, Fin 1)]"
  have h: "(0::nat) < length (slice0 ?pts 3)" "(1::nat) < length (slice0 ?pts 3)" "(0::nat) \<noteq> 1"
    "fst (slice0 ?pts 3 ! 0) = fst (slice0 ?pts 3 ! 1)"
    by (simp_all add: slice0_def)
  from duplicate_abscissa_not_finite [OF h] h show ?thesis
    by blast
qed

text \<open>
  Claim C1 at two inputs. For the points \<open>(1,4), (2,7), (3,12)\<close> and \<open>k = 3\<close> the
  function returns 3. For the two points of the line \<open>f(x) = 1 + 10^15 x\<close> at the
  abscissae 3 and 4 it returns 0, and \<open>f(0) = 1\<close>: the product \<open>3 * f(4)\<close> is rounded
  to binary64.
\<close>

theorem lagrangeInterpolation_rounds:
  "lagrangeInterpolation [(Fin 1, Fin 4), (Fin 2, Fin 7), (Fin 3, Fin 12)] 3 = Fin 3
     \<and> (let f = (\<lambda>x :: rat. 1 + 10 ^ 15 * x)
        in lagrangeInterpolation [(Fin 3, Fin (f 3)), (Fin 4, Fin (f 4))] 2 = Fin 0 \<and> f 0 = 1)"
  by (simp add: lagrange_eval fl_eval cong: let_weak_cong)

lemma parseTestCase_steepLine:
  "parseTestCase steepLine
     = Inr \<lparr>p_n = 4, p_k = 2,
            points = [(Fin 3, Fin 3000000000000001), (Fin 4, Fin 4000000000000001)],
            totalPointsFound = 2\<rparr>"
  by (simp add: parseTestCase_def steepLine_def upto_rec1 parseInt_small)
     (simp add: convert_eval parseInt_eval fl_eval cong: let_weak_cong)

lemma collect_points_steepLine:
  "collect_points (entry steepLine) 2 4 1 []
     = [(Fin 3, Fin 3000000000000001), (Fin 4, Fin 4000000000000001)]"
  by (simp add: collect_points.simps steepLine_def parseInt_eval fl_eval cong: let_weak_cong)

lemma collect_points_testCase1:
  "collect_points (entry testCase1) 3 4 1 [] = [(Fin 1, Fin 4), (Fin 2, Fin 7), (Fin 3, Fin 12)]"
  by (simp add: collect_points.simps testCase1_def parseInt_eval fl_eval cong: let_weak_cong)

text \<open>
  Claim C3 at two inputs. On test case 1 both solvers return 3. On the input
  \<open>steepLine\<close>, the line \<open>f(x) = 1 + 10^15 x\<close> at the keys 3 and 4,
  \<^verbatim>\<open>solveShamirSecretSharing\<close> returns the secret 0 and \<^verbatim>\<open>solvePolynomial\<close>
  returns 1. Every power that \<^verbatim>\<open>solvePolynomial\<close> takes on these inputs is a small
  integer, so the results hold for any \<open>approx\<close>.
\<close>

theorem solvers_disagree:
  "solveShamirSecretSharing testCase1
     = Inr \<lparr>secret = Fin 3, pointsUsed = 3, totalPoints = 3, polynomial_degree = 2\<rparr>
   \<and> solvePolynomial approx testCase1 = Some (Fin 3)
   \<and> solveShamirSecretSharing steepLine
     = Inr \<lparr>secret = Fin 0, pointsUsed = 2, totalPoints = 2, polynomial_degree = 1\<rparr>
   \<and> solvePolynomial approx steepLine = Some (Fin 1)"
proof -
  have "lagrangeInterpolation [(Fin 1, Fin 4), (Fin 2, Fin 7), (Fin 3, Fin 12)] 3 = Fin 3"
    by (simp add: lagrange_eval fl_eval cong: let_weak_cong)
  then have "solveShamirSecretSharing testCase1
      = Inr \<lparr>secret = Fin 3, pointsUsed = 3, totalPoints = 3, polynomial_degree = 2\<rparr>"
    by (simp add: solveShamirSecretSharing_def parseTestCase_testCase1)
  moreover have "keys_n testCase1 = 4" "keys_k testCase1 = 3"
    by (simp_all add: testCase1_def)
  then have "solvePolynomial approx testCase1 = Some (Fin 3)"
    by (simp add: solvePolynomial_def collect_points_testCase1 numeral_3_eq_3 fl_eval cong: let_weak_cong)
       (simp add: gauss_eval fl_eval cong: let_weak_cong)
  moreover
  have "lagrangeInterpolation [(Fin 3, Fin 3000000000000001), (Fin 4, Fin 4000000000000001)] 2
      = Fin 0"
    by (simp add: lagrange_eval fl_eval cong: let_weak_cong)
  then have "solveShamirSecretSharing steepLine
      = Inr \<lparr>secret = Fin 0, pointsUsed = 2, totalPoints = 2, polynomial_degree = 1\<rparr>"
    by (simp add: solveShamirSecretSharing_def parseTestCase_steepLine)
  moreover have "keys_n steepLine = 4" "keys_k steepLine = 2"
    by (simp_all add: steepLine_def)
  then have "solvePolynomial approx steepLine = Some (Fin 1)"
    by (simp add: solvePolynomial_def collect_points_steepLine numeral_2_eq_2)
       (simp add: gauss_eval fl_eval cong: let_weak_cong)
  ultimately show ?thesis
    by blast
qed

section \<open>Numbers that rounding keeps\<close>

lemma round_half_even_of_int: "round_half_even (of_int m) = m"
  by (simp add: round_half_even_def)

lemma pow2_pos: "0 < pow2 e"
  by (simp add: pow2_def)

lemma fl_keeps:
  assumes "q / pow2 (max (ilog2 \<bar>q\<bar>) (- 1022) - 52) = of_int m" and "\<bar>q\<bar> < 2 ^ 1024"
  shows "fl q = Fin q"
proof (cases "q = 0")
  case True
  then show ?thesis
    by (simp add: fl_def)
next
  case False
  let ?u = "pow2 (max (ilog2 \<bar>q\<bar>) (- 1022) - 52)"
  have "?u \<noteq> 0"
    using pow2_pos [of "max (ilog2 \<bar>q\<bar>) (- 1022) - 52"] by simp
  have "of_int (round_half_even (q / ?u)) * ?u = of_int m * ?u"
    by (simp only: assms(1) round_half_even_of_int)
  also have "\<dots> = q"
    using \<open>?u \<noteq> 0\<close> assms(1) by (simp add: divide_eq_eq)
  finally have "of_int (round_half_even (q / ?u)) * ?u = q" .
  with False assms(2) show ?thesis
    by (simp add: fl_def Let_def)
qed

lemma ilog2_of_int:
  assumes "1 \<le> n"
  shows "ilog2 (of_int n) = bitlen n - 1"
  using assms by (simp add: ilog2_def)

lemma bitlen_le_54:
  assumes "1 \<le> n" and "n \<le> 2 ^ 53"
  shows "1 \<le> bitlen n" and "bitlen n \<le> 54" and "bitlen n = 54 \<Longrightarrow> n = 2 ^ 53"
proof -
  from assms(1) have pos: "0 < n"
    by simp
  from pos show one: "1 \<le> bitlen n"
    by (simp add: bitlen_alt_def)
  from bitlen_bounds [OF pos] have le: "(2::int) ^ nat (bitlen n - 1) \<le> n"
    by simp
  from le assms(2) have "(2::int) ^ nat (bitlen n - 1) \<le> 2 ^ 53"
    by (rule order_trans)
  then have "nat (bitlen n - 1) \<le> 53"
    by (rule power_le_imp_le_exp [rotated]) simp
  with one show "bitlen n \<le> 54"
    by simp
  show "n = 2 ^ 53" if "bitlen n = 54"
    using le assms(2) that by simp
qed

lemma fl_of_pos_int:
  assumes "1 \<le> n" and "n \<le> 2 ^ 53"
  shows "fl (of_int n) = Fin (of_int n)"
proof -
  note b = bitlen_le_54 [OF assms]
  have e: "max (ilog2 \<bar>of_int n\<bar>) (- 1022) = bitlen n - 1"
    using assms(1) b(1) by (simp add: ilog2_of_int)
  have "\<exists>m. (of_int n :: rat) / pow2 (bitlen n - 1 - 52) = of_int m"
  proof (cases "bitlen n = 54")
    case True
    with b(3) have "n = 2 ^ 53"
      by simp
    with True have "(of_int n :: rat) / pow2 (bitlen n - 1 - 52) = of_int (2 ^ 52)"
      by (simp add: pow2_def)
    then show ?thesis ..
  next
    case False
    with b(2) have small: "bitlen n - 1 - 52 \<le> 0"
      by simp
    then have "pow2 (bitlen n - 1 - 52) = 1 / 2 ^ nat (- (bitlen n - 1 - 52))"
      by (cases "bitlen n - 1 - 52 = 0") (simp_all add: pow2_def)
    then have "(of_int n :: rat) / pow2 (bitlen n - 1 - 52)
        = of_int (n * 2 ^ nat (- (bitlen n - 1 - 52)))"
      by simp
    then show ?thesis ..
  qed
  then obtain m where "(of_int n :: rat) / pow2 (max (ilog2 \<bar>of_int n\<bar>) (- 1022) - 52) = of_int m"
    unfolding e by blast
  moreover have "\<bar>of_int n :: rat\<bar> < 2 ^ 1024"
  proof -
    have "(of_int n :: rat) \<le> of_int (2 ^ 53)"
      using assms(2) by (simp only: of_int_le_iff)
    then have "(of_int n :: rat) \<le> 2 ^ 53"
      by simp
    moreover have "(2::rat) ^ 53 < 2 ^ 1024"
      by (simp add: power_strict_increasing_iff)
    ultimately show ?thesis
      using assms(1) by simp
  qed
  ultimately show ?thesis
    by (rule fl_keeps)
qed

lemma fl_of_int:
  assumes "0 \<le> n" and "n \<le> 2 ^ 53"
  shows "fl (of_int n) = Fin (of_int n)"
proof (cases "n = 0")
  case True
  then show ?thesis
    by (simp add: fl_def)
next
  case False
  with assms(1) have "1 \<le> n"
    by simp
  then show ?thesis
    using assms(2) by (rule fl_of_pos_int)
qed


section \<open>The base converter below \<open>2^53\<close>\<close>

lemma validDigit_index:
  assumes "validDigit b c"
  shows "indexOf digits (toLowerCase c) = digitOf c" and "0 \<le> digitOf c" and "digitOf c < b"
proof -
  from assms obtain d where d: "digitValue c = Some d" "d < b"
    by (auto simp: validDigit_def split: option.splits)
  from d(1) have "c \<noteq> 0x212A"
    by (auto simp: digitValue_def Kelvin_unat)
  with d(1) have "acceptedValue c = Some d"
    by (simp add: acceptedValue_def)
  with d(1) show "indexOf digits (toLowerCase c) = digitOf c"
    by (simp add: indexOf_digits digitOf_def)
  from d(1) have "0 \<le> d"
    by (rule digitValue_nonneg)
  with d show "0 \<le> digitOf c" and "digitOf c < b"
    by (simp_all add: digitOf_def)
qed

lemma mathInt_step_mono:
  assumes "1 \<le> b" and "0 \<le> acc" and "\<forall>c \<in> set cs. validDigit b c"
  shows "acc \<le> foldl (\<lambda>a c. a * b + digitOf c) acc cs"
  using assms(2,3)
proof (induction cs arbitrary: acc)
  case Nil
  show ?case by simp
next
  case (Cons c cs)
  let ?d = "digitOf c"
  from Cons.prems(2) have "validDigit b c"
    by simp
  then have d: "0 \<le> ?d"
    by (rule validDigit_index)
  from assms(1) Cons.prems(1) have "acc * 1 \<le> acc * b"
    by (intro mult_left_mono) simp_all
  with d have le: "acc \<le> acc * b + ?d"
    by simp
  with Cons.prems(1) have "0 \<le> acc * b + ?d"
    by simp
  from Cons.IH [OF this] Cons.prems(2) le show ?case
    by simp
qed

lemma convert_loop_exact:
  assumes "1 \<le> b" and "\<forall>c \<in> set cs. validDigit b c" and "0 \<le> acc"
    and "foldl (\<lambda>a c. a * b + digitOf c) acc cs \<le> 2 ^ 53"
  shows "convert_loop (Fin (of_int b)) cs (Fin (of_int acc))
       = Inr (Fin (of_int (foldl (\<lambda>a c. a * b + digitOf c) acc cs)))"
  using assms(2,3,4)
proof (induction cs arbitrary: acc)
  case Nil
  show ?case by simp
next
  case (Cons c cs)
  let ?d = "digitOf c"
  let ?step = "\<lambda>a c. a * b + digitOf c"
  from Cons.prems(1) have valid: "validDigit b c" and rest: "\<forall>c \<in> set cs. validDigit b c"
    by simp_all
  from valid have idx: "indexOf digits (toLowerCase c) = ?d" and d: "0 \<le> ?d"
    by (rule validDigit_index)+
  from assms(1) Cons.prems(2) have ab: "0 \<le> acc * b"
    by simp
  with d have acc': "0 \<le> acc * b + ?d"
    by simp
  from mathInt_step_mono [OF assms(1) acc' rest] Cons.prems(3)
  have bound: "acc * b + ?d \<le> 2 ^ 53"
    by simp
  with d have "acc * b \<le> 2 ^ 53"
    by linarith
  with ab have "fl (of_int (acc * b)) = Fin (of_int (acc * b))"
    by (rule fl_of_int)
  then have mul: "js_mul (Fin (of_int acc)) (Fin (of_int b)) = Fin (of_int acc * of_int b)"
    by simp
  from acc' bound have "fl (of_int (acc * b + ?d)) = Fin (of_int (acc * b + ?d))"
    by (rule fl_of_int)
  then have add: "js_add (Fin (of_int acc * of_int b)) (Fin (of_int ?d))
      = Fin (of_int acc * of_int b + of_int ?d)"
    by simp
  from validDigit_accepted [OF valid] digit_test [of c b]
  have "convert_loop (Fin (of_int b)) (c # cs) (Fin (of_int acc))
      = convert_loop (Fin (of_int b)) cs (Fin (of_int (acc * b + ?d)))"
    by (simp add: Let_def idx mul add del: js_mul.simps js_add.simps)
  also from Cons.prems(3) have "\<dots> = Inr (Fin (of_int (foldl ?step (acc * b + ?d) cs)))"
    by (intro Cons.IH [OF rest acc']) simp
  finally show ?case
    by simp
qed

text \<open>
  A string of valid digits whose value is at most \<open>2^53\<close> is converted exactly: no
  step of the accumulation is rounded.
\<close>

lemma convertToDecimal_exact:
  assumes "2 \<le> b" and "b \<le> 36" and "\<forall>c \<in> set v. validDigit b c"
    and "mathInt b v \<le> 2 ^ 53"
  shows "convertToDecimal v (Fin (of_int b)) = Inr (Fin (of_int (mathInt b v)))"
proof -
  from assms(1) have "1 \<le> b"
    by simp
  from convert_loop_exact [OF this assms(3), of 0] assms(4) show ?thesis
    by (simp add: convertToDecimal_def mathInt_def)
qed

lemma digit_char_all: "list_all (\<lambda>d. digitValue (digits ! nat d) = Some d) [0..35]"
  by (simp add: upto_rec1 digits_def str_def digitValue_def)

lemma digit_char:
  assumes "0 \<le> d" and "d < 36"
  shows "digitValue (digits ! nat d) = Some d"
proof -
  from assms have "d \<in> set [0..35]"
    by simp
  with digit_char_all show ?thesis
    unfolding list_all_iff by blast
qed

lemma digit_char_valid:
  assumes "0 \<le> d" and "d < b" and "b \<le> 36"
  shows "validDigit b (digits ! nat d)" and "digitOf (digits ! nat d) = d"
proof -
  from assms have "digitValue (digits ! nat d) = Some d"
    by (intro digit_char) simp_all
  with assms show "validDigit b (digits ! nat d)" and "digitOf (digits ! nat d) = d"
    by (simp_all add: validDigit_def digitOf_def)
qed

lemma toDigitString_spec:
  assumes "2 \<le> b" and "b \<le> 36" and "0 \<le> v"
  shows "(\<forall>c \<in> set (toDigitString b v). validDigit b c) \<and> mathInt b (toDigitString b v) = v"
  using assms
proof (induction b v rule: toDigitString.induct)
  case (1 b v)
  show ?case
  proof (cases "v < b")
    case True
    then have s: "toDigitString b v = [digits ! nat v]"
      by (subst toDigitString.simps) simp
    have "validDigit b (digits ! nat v)" and "digitOf (digits ! nat v) = v"
      by (rule digit_char_valid [OF "1.prems"(3) True "1.prems"(2)])+
    then show ?thesis
      by (simp add: s mathInt_def)
  next
    case False
    with "1.prems" have s: "toDigitString b v
        = toDigitString b (v div b) @ [digits ! nat (v mod b)]"
      by (subst toDigitString.simps) simp
    from "1.prems" have m: "0 \<le> v mod b" "v mod b < b" and q: "0 \<le> v div b"
      by (simp_all add: pos_imp_zdiv_nonneg_iff)
    from False "1.prems" have "\<not> (b < 2 \<or> v < b)"
      by simp
    from "1.IH" [OF this "1.prems"(1,2) q]
    have ih: "\<forall>c \<in> set (toDigitString b (v div b)). validDigit b c"
      "mathInt b (toDigitString b (v div b)) = v div b"
      by simp_all
    have "validDigit b (digits ! nat (v mod b))" and "digitOf (digits ! nat (v mod b)) = v mod b"
      by (rule digit_char_valid [OF m "1.prems"(2)])+
    then show ?thesis
      using ih by (simp add: s mathInt_def)
  qed
qed

text \<open>Up to \<open>2^53\<close> the digit string of a number is converted back to the number.\<close>

lemma round_trip_below_2_53:
  assumes "2 \<le> b" and "b \<le> 36" and "0 \<le> v" and "v \<le> 2 ^ 53"
  shows "convertToDecimal (toDigitString b v) (Fin (of_int b)) = Inr (Fin (of_int v))"
proof -
  from toDigitString_spec [OF assms(1,2,3)]
  have "\<forall>c \<in> set (toDigitString b v). validDigit b c" and "mathInt b (toDigitString b v) = v"
    by simp_all
  with convertToDecimal_exact [OF assms(1,2), of "toDigitString b v"] assms(4) show ?thesis
    by simp
qed

section \<open>Claims on the exactness of the base converter\<close>

text \<open>
  Claim C2 at three inputs. \<^verbatim>\<open>111\<close> in base 2 is 7 and \<^verbatim>\<open>213\<close> in base 4 is 39;
  the decimal string of \<open>2^53 + 1\<close> is converted to \<open>2^53\<close>: the accumulation
  \<^verbatim>\<open>result * base + digit\<close> is rounded to binary64.
\<close>

theorem convertToDecimal_rounds:
  "convertToDecimal (str ''111'') (Fin 2) = Inr (Fin 7)
     \<and> convertToDecimal (str ''213'') (Fin 4) = Inr (Fin 39)
     \<and> convertToDecimal (str ''9007199254740993'') (Fin 10) = Inr (Fin 9007199254740992)"
  by (simp add: convert_eval fl_eval cong: let_weak_cong)

text \<open>
  Claim C8 at \<open>v = 2^53 + 1\<close> and base 16: the digit string of \<open>v\<close> is converted to
  \<open>2^53\<close>.
\<close>

theorem round_trip_fails:
  "toDigitString 16 9007199254740993 = str ''20000000000001''
     \<and> convertToDecimal (toDigitString 16 9007199254740993) (Fin 16)
         = Inr (Fin 9007199254740992)"
proof -
  have "toDigitString 16 9007199254740993 = str ''20000000000001''"
    by (simp add: toDigitString.simps digits_def str_def)
  moreover have "convertToDecimal (str ''20000000000001'') (Fin 16) = Inr (Fin 9007199254740992)"
    by (simp add: convert_eval fl_eval cong: let_weak_cong)
  ultimately show ?thesis
    by simp
qed

end
